theory Spec2Isabelle
  imports Main "HOL-Library.Char_ord" "HOL-Library.List_Lexorder"
begin

section \<open>Strings\<close>

text \<open>
  Python strings are modelled as \<open>string\<close>: a character is a code point below
  256, where \<open>str.lower\<close> and \<open>str.strip\<close> act as written below.  Strings are
  compared lexicographically by code point, as Python compares them.
\<close>

text \<open>\<open>s.startswith(p)\<close>; also used on lists of path components.\<close>

fun startswith :: "'a list \<Rightarrow> 'a list \<Rightarrow> bool" where
  "startswith s [] = True"
| "startswith [] (c # cs) = False"
| "startswith (x # xs) (c # cs) = (x = c \<and> startswith xs cs)"

text \<open>\<open>s.endswith(e)\<close>\<close>

definition endswith :: "'a list \<Rightarrow> 'a list \<Rightarrow> bool" where
  "endswith s e = startswith (rev s) (rev e)"

text \<open>\<open>sub in s\<close>\<close>

fun str_contains :: "string \<Rightarrow> string \<Rightarrow> bool" where
  "str_contains [] sub = (sub = [])"
| "str_contains (x # xs) sub = (startswith (x # xs) sub \<or> str_contains xs sub)"

text \<open>\<open>s.split(sep)\<close> for a one-character separator: always at least one part.\<close>

fun split_str :: "char \<Rightarrow> string \<Rightarrow> string list" where
  "split_str sep [] = [[]]"
| "split_str sep (c # cs) =
     (if c = sep then [] # split_str sep cs
      else (case split_str sep cs of
              [] \<Rightarrow> [[c]]
            | p # ps \<Rightarrow> (c # p) # ps))"

text \<open>\<open>sep.join(parts)\<close> for a one-character separator.\<close>

fun join_str :: "char \<Rightarrow> string list \<Rightarrow> string" where
  "join_str sep [] = []"
| "join_str sep [p] = p"
| "join_str sep (p # q # ps) = p @ sep # join_str sep (q # ps)"

text \<open>\<open>s.count(c)\<close>\<close>

definition count_char :: "char \<Rightarrow> string \<Rightarrow> nat" where
  "count_char c s = length (filter (\<lambda>x. x = c) s)"

text \<open>
  \<open>s.lower()\<close>: the upper-case letters below 256 are \<open>A\<close> to \<open>Z\<close> and the code
  points 192 to 222 without the multiplication sign 215; the lower-case letter of each
  lies 32 higher.
\<close>

definition is_upper :: "char \<Rightarrow> bool" where
  "is_upper c =
     ((65::nat) \<le> of_char c \<and> of_char c \<le> (90::nat)
      \<or> (192::nat) \<le> of_char c \<and> of_char c \<le> (222::nat) \<and> of_char c \<noteq> (215::nat))"

definition lower_char :: "char \<Rightarrow> char" where
  "lower_char c = (if is_upper c then char_of (of_char c + (32::nat)) else c)"

definition lower :: "string \<Rightarrow> string" where
  "lower s = map lower_char s"

text \<open>
  \<open>s.strip()\<close> removes the characters of \<open>str.isspace\<close> from both ends: below 256
  these are the space, the code points 9 to 13 and 28 to 31, the next-line character
  133 and the no-break space 160.
\<close>

definition is_space :: "char \<Rightarrow> bool" where
  "is_space c =
     (c = CHR '' '' \<or> (9::nat) \<le> of_char c \<and> of_char c \<le> (13::nat)
      \<or> (28::nat) \<le> of_char c \<and> of_char c \<le> (31::nat)
      \<or> of_char c = (133::nat) \<or> of_char c = (160::nat))"

definition strip :: "string \<Rightarrow> string" where
  "strip s = rev (dropWhile is_space (rev (dropWhile is_space s)))"

section \<open>Paths and the file system\<close>

text \<open>
  A \<open>pathlib.Path\<close> is the list of its components; absolute paths start at the root
  directory \<open>[]\<close>.  The disk is a tree of named files and directories, with no
  symbolic links and no permissions.
\<close>

type_synonym path = "string list"

text \<open>\<open>p.name\<close> and \<open>p.parent\<close>\<close>

definition path_name :: "path \<Rightarrow> string" where
  "path_name p = (if p = [] then [] else last p)"

definition path_parent :: "path \<Rightarrow> path" where
  "path_parent p = butlast p"

text \<open>\<open>str(p)\<close> of a relative path: \<open>"."\<close> when it has no component.\<close>

definition path_str :: "path \<Rightarrow> string" where
  "path_str p = (if p = [] then ''.'' else join_str CHR ''/'' p)"

text \<open>
  \<open>bool(p)\<close>: \<open>Path\<close> defines neither \<open>__bool__\<close> nor \<open>__len__\<close>, so every path
  object is true.
\<close>

definition path_bool :: "path \<Rightarrow> bool" where
  "path_bool p = True"

text \<open>\<open>p.relative_to(base)\<close>: \<open>None\<close> stands for the \<open>ValueError\<close>.\<close>

definition relative_to :: "path \<Rightarrow> path \<Rightarrow> path option" where
  "relative_to p base = (if startswith p base then Some (drop (length base) p) else None)"

text \<open>
  \<open>Path(f).suffix\<close> of a file name: from the last dot on, unless that dot is the
  first or the last character.
\<close>

definition rfind_dot :: "string \<Rightarrow> nat option" where
  "rfind_dot name =
     (case filter (\<lambda>i. name ! i = CHR ''.'') (rev [0..<length name]) of
        [] \<Rightarrow> None
      | i # _ \<Rightarrow> Some i)"

definition suffix_of :: "string \<Rightarrow> string" where
  "suffix_of name =
     (case rfind_dot name of
        None \<Rightarrow> []
      | Some i \<Rightarrow> (if 0 < i \<and> i + 1 < length name then drop i name else []))"

definition NOTE_EXTENSIONS :: "string list" where
  "NOTE_EXTENSIONS = [''.txt'', ''.md'']"

text \<open>\<open>base / s\<close>: an absolute \<open>s\<close> replaces the base; empty and \<open>"."\<close> parts vanish.\<close>

definition path_join :: "path \<Rightarrow> string \<Rightarrow> path" where
  "path_join base s =
     (let parts = filter (\<lambda>c. c \<noteq> [] \<and> c \<noteq> ''.'') (split_str CHR ''/'' s)
      in if startswith s ''/'' then parts else base @ parts)"

text \<open>\<open>p.resolve()\<close> without symbolic links: \<open>".."\<close> steps to the parent.\<close>

definition resolve :: "path \<Rightarrow> path" where
  "resolve p = foldl (\<lambda>acc c. if c = ''..'' then butlast acc else acc @ [c]) [] p"

datatype fsnode = File string | Dir string "fsnode list"

fun node_name :: "fsnode \<Rightarrow> string" where
  "node_name (File n) = n"
| "node_name (Dir n es) = n"

fun is_dir_node :: "fsnode \<Rightarrow> bool" where
  "is_dir_node (File n) = False"
| "is_dir_node (Dir n es) = True"

fun find_entry :: "string \<Rightarrow> fsnode list \<Rightarrow> fsnode option" where
  "find_entry n [] = None"
| "find_entry n (e # es) = (if node_name e = n then Some e else find_entry n es)"

text \<open>The node at an absolute path without \<open>".."\<close>, from the root directory.\<close>

fun lookup :: "fsnode \<Rightarrow> path \<Rightarrow> fsnode option" where
  "lookup n [] = Some n"
| "lookup (File f) (c # cs) = None"
| "lookup (Dir d es) (c # cs) =
     (case find_entry c es of None \<Rightarrow> None | Some e \<Rightarrow> lookup e cs)"

definition is_dir_at :: "fsnode \<Rightarrow> path \<Rightarrow> bool" where
  "is_dir_at fs p = (case lookup fs p of Some (Dir d es) \<Rightarrow> True | _ \<Rightarrow> False)"

text \<open>
  How the operating system follows a path: every step starts in a directory, and
  \<open>".."\<close> steps to the parent.  The result is the path reached, if there is one.
\<close>

fun os_follow :: "fsnode \<Rightarrow> path \<Rightarrow> path \<Rightarrow> path option" where
  "os_follow fs cur [] = (if lookup fs cur = None then None else Some cur)"
| "os_follow fs cur (c # cs) =
     (if \<not> is_dir_at fs cur then None
      else if c = ''..'' then os_follow fs (butlast cur) cs
      else os_follow fs (cur @ [c]) cs)"

text \<open>\<open>p.is_dir()\<close> and \<open>p.exists()\<close>\<close>

definition is_dir :: "fsnode \<Rightarrow> path \<Rightarrow> bool" where
  "is_dir fs p = (case os_follow fs [] p of None \<Rightarrow> False | Some q \<Rightarrow> is_dir_at fs q)"

definition path_exists :: "fsnode \<Rightarrow> path \<Rightarrow> bool" where
  "path_exists fs p = (os_follow fs [] p \<noteq> None)"

definition is_file :: "fsnode \<Rightarrow> path \<Rightarrow> bool" where
  "is_file fs p =
     (case os_follow fs [] p of
        None \<Rightarrow> False
      | Some q \<Rightarrow> (case lookup fs q of Some (File f) \<Rightarrow> True | _ \<Rightarrow> False))"

text \<open>
  \<open>os.walk(top)\<close>, top down: one triple \<open>(root, dirs, files)\<close> for the directory and
  then those of its subdirectories, in the order of its entries.
\<close>

fun walk_node :: "path \<Rightarrow> fsnode \<Rightarrow> (path \<times> string list \<times> string list) list" where
  "walk_node p (File n) = []"
| "walk_node p (Dir n es) =
     (p, map node_name (filter is_dir_node es),
         map node_name (filter (\<lambda>e. \<not> is_dir_node e) es))
     # concat (map (\<lambda>e. walk_node (p @ [node_name e]) e) es)"

definition os_walk :: "fsnode \<Rightarrow> path \<Rightarrow> (path \<times> string list \<times> string list) list" where
  "os_walk fs start = (case lookup fs start of None \<Rightarrow> [] | Some n \<Rightarrow> walk_node start n)"

text \<open>Replacing the entry of a directory that has a given name.\<close>

fun replace_entry :: "string \<Rightarrow> fsnode \<Rightarrow> fsnode list \<Rightarrow> fsnode list" where
  "replace_entry n e' [] = []"
| "replace_entry n e' (e # es) =
     (if node_name e = n then e' # es else e # replace_entry n e' es)"

text \<open>
  \<open>p.touch()\<close> and \<open>p.unlink()\<close> at an absolute path without \<open>".."\<close>; \<open>None\<close> stands
  for the exception (a missing parent directory, a missing file, a directory in the
  place of the file).
\<close>

fun touch :: "fsnode \<Rightarrow> path \<Rightarrow> fsnode option" where
  "touch n [] = Some n"
| "touch (File f) (c # cs) = None"
| "touch (Dir d es) [c] =
     (case find_entry c es of
        None \<Rightarrow> Some (Dir d (es @ [File c]))
      | Some e \<Rightarrow> Some (Dir d es))"
| "touch (Dir d es) (c # c' # cs) =
     (case find_entry c es of
        None \<Rightarrow> None
      | Some e \<Rightarrow> (case touch e (c' # cs) of
                    None \<Rightarrow> None
                  | Some e' \<Rightarrow> Some (Dir d (replace_entry c e' es))))"

fun unlink :: "fsnode \<Rightarrow> path \<Rightarrow> fsnode option" where
  "unlink n [] = None"
| "unlink (File f) (c # cs) = None"
| "unlink (Dir d es) [c] =
     (case find_entry c es of
        Some (File f) \<Rightarrow> Some (Dir d (filter (\<lambda>e. node_name e \<noteq> c) es))
      | _ \<Rightarrow> None)"
| "unlink (Dir d es) (c # c' # cs) =
     (case find_entry c es of
        None \<Rightarrow> None
      | Some e \<Rightarrow> (case unlink e (c' # cs) of
                    None \<Rightarrow> None
                  | Some e' \<Rightarrow> Some (Dir d (replace_entry c e' es))))"

section \<open>File operations\<close>

text \<open>\<open>is_safe_path\<close>: the joined and resolved path lies in the base directory.\<close>

definition path_parents :: "path \<Rightarrow> path list" where
  "path_parents p = map (\<lambda>i. take i p) (rev [0..<length p])"

definition is_safe_path :: "path \<Rightarrow> string \<Rightarrow> bool" where
  "is_safe_path base_path user_path =
     (let full_path = resolve (path_join base_path user_path)
      in base_path \<in> set (path_parents full_path) \<or> base_path = full_path)"

definition dangerous_extensions :: "string list" where
  "dangerous_extensions =
     [''.exe'', ''.sh'', ''.bat'', ''.cmd'', ''.py'', ''.js'', ''.php'',
      ''.rb'', ''.pl'', ''.ps1'', ''.vbs'', ''.jar'', ''.app'']"

definition validate_filename :: "string \<Rightarrow> bool" where
  "validate_filename filename =
     (if list_ex (endswith (lower filename)) dangerous_extensions then False
      else if str_contains filename ''..'' \<or> str_contains filename ''/''
              \<or> str_contains filename [CHR 0x5C] then False
      else if str_contains filename [CHR 0x00] then False
      else True)"

text \<open>\<open>touch\<close> and \<open>unlink\<close> through the operating system's path resolution.\<close>

definition os_touch :: "fsnode \<Rightarrow> path \<Rightarrow> fsnode option" where
  "os_touch fs p =
     (if p = [] then Some fs
      else (case os_follow fs [] (butlast p) of
              None \<Rightarrow> None
            | Some q \<Rightarrow> touch fs (q @ [last p])))"

definition os_unlink :: "fsnode \<Rightarrow> path \<Rightarrow> fsnode option" where
  "os_unlink fs p =
     (if p = [] then None
      else (case os_follow fs [] (butlast p) of
              None \<Rightarrow> None
            | Some q \<Rightarrow> unlink fs (q @ [last p])))"

text \<open>
  The limits of the operating system on names.  \<open>stat\<close> fails with \<open>ENAMETOOLONG\<close>
  for a path of 4096 bytes or more, and when it reaches, in an existing directory, a
  name of more than 255 bytes.  \<open>is_dir()\<close> and \<open>exists()\<close> answer false for a
  missing path and let this \<open>OSError\<close> through.  A character below 128 is one byte
  of the path, any other is two.
\<close>

definition utf8_length :: "string \<Rightarrow> nat" where
  "utf8_length s = length s + length (filter (\<lambda>c. (128::nat) \<le> of_char c) s)"

definition path_bytes :: "path \<Rightarrow> nat" where
  "path_bytes p = sum_list (map (\<lambda>c. utf8_length c + 1) p)"

fun reaches_long_name :: "fsnode \<Rightarrow> path \<Rightarrow> path \<Rightarrow> bool" where
  "reaches_long_name fs cur [] = False"
| "reaches_long_name fs cur (c # cs) =
     (if \<not> is_dir_at fs cur then False
      else if c = ''..'' then reaches_long_name fs (butlast cur) cs
      else if 255 < utf8_length c then True
      else reaches_long_name fs (cur @ [c]) cs)"

definition name_too_long :: "fsnode \<Rightarrow> path \<Rightarrow> bool" where
  "name_too_long fs p = (4096 \<le> path_bytes p \<or> reaches_long_name fs [] p)"

text \<open>
  \<open>create_new_note\<close>.  Every \<open>return None\<close> of the source is an error value naming
  the message printed before it; \<open>UncaughtOSError\<close> stands for the \<open>OSError\<close> of
  \<open>is_dir()\<close> or \<open>exists()\<close> on a name that is too long, which the function does not
  catch: it leaves the function and nothing is created.  The line the user types at
  the prompt is the argument \<open>typed\<close>.
\<close>

datatype create_error =
  InvalidFolderPath | FolderNotFound | NoFilename | InvalidFilename | AlreadyExists
  | CreateFailed | UncaughtOSError

text \<open>
  The loop over the configured folders that looks for the directory of the relative
  folder path; \<open>absolute_folder_path\<close> is the candidate of the last round.
\<close>

fun find_folder :: "fsnode \<Rightarrow> path list \<Rightarrow> string \<Rightarrow> path option \<Rightarrow> create_error + path option" where
  "find_folder fs [] folder_path absolute_folder_path = Inr absolute_folder_path"
| "find_folder fs (config_path # rest) folder_path absolute_folder_path =
     (if \<not> is_safe_path config_path folder_path then Inl InvalidFolderPath
      else if name_too_long fs (path_join config_path folder_path) then Inl UncaughtOSError
      else if is_dir fs (path_join config_path folder_path)
           then Inr (Some (path_join config_path folder_path))
           else find_folder fs rest folder_path (Some (path_join config_path folder_path)))"

definition create_new_note ::
  "fsnode \<Rightarrow> path list \<Rightarrow> string \<Rightarrow> string \<Rightarrow> (create_error + path) \<times> fsnode" where
  "create_new_note fs folders folder_path typed =
     (case find_folder fs folders folder_path None of
        Inl e \<Rightarrow> (Inl e, fs)
      | Inr None \<Rightarrow> (Inl FolderNotFound, fs)
      | Inr (Some absolute_folder_path) \<Rightarrow>
          if \<not> is_dir fs absolute_folder_path then (Inl FolderNotFound, fs)
          else
            let filename = strip typed in
            if filename = [] then (Inl NoFilename, fs)
            else if \<not> validate_filename filename then (Inl InvalidFilename, fs)
            else
              let filename = (if list_ex (endswith filename) NOTE_EXTENSIONS
                              then filename else filename @ ''.md'');
                  new_file_path = path_join absolute_folder_path filename
              in if name_too_long fs new_file_path then (Inl UncaughtOSError, fs)
                 else if path_exists fs new_file_path then (Inl AlreadyExists, fs)
                 else (case os_touch fs new_file_path of
                         None \<Rightarrow> (Inl CreateFailed, fs)
                       | Some fs' \<Rightarrow> (Inr new_file_path, fs')))"

text \<open>
  The file name that \<open>create_new_note\<close> ends up with: the name as typed when it ends
  with one of \<open>NOTE_EXTENSIONS\<close> (compared as written, upper and lower case
  distinct), and the name with \<open>.md\<close> appended otherwise.
\<close>

definition note_filename :: "string \<Rightarrow> string" where
  "note_filename filename =
     (if endswith filename ''.txt'' \<or> endswith filename ''.md'' then filename
      else filename @ ''.md'')"

text \<open>
  \<open>delete_file\<close>: the result is whether the file was deleted, with the disk
  afterwards.  \<open>typed\<close> is the line the user types at the confirmation prompt.
\<close>

definition delete_file :: "fsnode \<Rightarrow> path list \<Rightarrow> path \<Rightarrow> string \<Rightarrow> bool \<times> fsnode" where
  "delete_file fs folders note_path typed =
     (let file_is_safe =
            list_ex (\<lambda>config_path.
                       config_path \<in> set (path_parents (resolve note_path))
                       \<or> config_path = path_parent (resolve note_path)) folders
      in if \<not> file_is_safe then (False, fs)
         else
           let confirm = strip typed in
           if confirm \<noteq> ''DELETE'' then (False, fs)
           else (case os_unlink fs note_path of
                   None \<Rightarrow> (False, fs)
                 | Some fs' \<Rightarrow> (True, fs')))"

section \<open>Tree rows and the selection\<close>

text \<open>
  A row of the tree, \<open>(type, item, indent_level)\<close> in the source: the type is
  \<open>"folder"\<close> with a relative folder path, or \<open>"note"\<close> with the note's path.
\<close>

datatype tree_item = FolderItem string nat | NoteItem path nat

text \<open>
  The fields of \<open>NoteCLI\<close> and of its \<open>state\<close> dictionary that the navigation and
  tree code reads or writes.  \<open>config_folders\<close> holds the configured search
  directories, already expanded and resolved to absolute paths (lists of path
  components) within the operating system's limits on names.
\<close>

record app =
  config_folders :: "path list"
  all_notes :: "path list"
  selected_index :: int
  filtered_notes :: "string list"
  note_to_open :: "path option"
  expanded_folders :: "string set"
  tree_items :: "tree_item list"

text \<open>\<open>move_down\<close> and \<open>move_up\<close>: the key handlers of the arrow keys.\<close>

definition move_down :: "app \<Rightarrow> app" where
  "move_down a =
     (if tree_items a \<noteq> []
      then a\<lparr>selected_index := (selected_index a + 1) mod int (length (tree_items a))\<rparr>
      else a)"

definition move_up :: "app \<Rightarrow> app" where
  "move_up a =
     (if tree_items a \<noteq> []
      then a\<lparr>selected_index :=
              (selected_index a - 1 + int (length (tree_items a))) mod int (length (tree_items a))\<rparr>
      else a)"

section \<open>The folder set\<close>

text \<open>
  The parent folders of a relative folder path, as both \<open>_get_folders\<close> and
  \<open>_build_tree_items\<close> compute them: \<open>'/'.join(parts[:i])\<close> for \<open>i\<close> in
  \<open>range(1, len(parts))\<close>, where \<open>parts\<close> splits the path at \<open>'/'\<close>.
\<close>

definition parent_folders :: "string \<Rightarrow> string list" where
  "parent_folders folder =
     (let path_parts = split_str CHR ''/'' folder
      in map (\<lambda>i. join_str CHR ''/'' (take i path_parts)) [1..<length path_parts])"

text \<open>\<open>folders.add(s)\<close> followed by the loop that adds all parent folders of \<open>s\<close>.\<close>

definition add_with_parents :: "string \<Rightarrow> string set \<Rightarrow> string set" where
  "add_with_parents s folders =
     foldl (\<lambda>acc parent_folder. insert parent_folder acc) (insert s folders) (parent_folders s)"

text \<open>
  The inner loop of the first half of \<open>_get_folders\<close>, for one note: the first
  configured folder that the note's directory is relative to decides (\<open>break\<close>);
  a \<open>ValueError\<close> goes on to the next one.
\<close>

fun add_note_folder :: "path \<Rightarrow> path list \<Rightarrow> string set \<Rightarrow> string set" where
  "add_note_folder note [] folders = folders"
| "add_note_folder note (folder_path # rest) folders =
     (case relative_to (path_parent note) folder_path of
        None \<Rightarrow> add_note_folder note rest folders
      | Some relative_path \<Rightarrow>
          (if path_bool relative_path
           then add_with_parents (path_str relative_path) folders
           else folders))"

text \<open>
  The second half of \<open>_get_folders\<close>, for one configured folder: every directory
  below it that holds no note file itself is added, with its parents.
\<close>

definition has_notes :: "string list \<Rightarrow> bool" where
  "has_notes files = list_ex (\<lambda>f. lower (suffix_of f) \<in> set NOTE_EXTENSIONS) files"

definition add_walked :: "path \<Rightarrow> string set \<Rightarrow> path \<times> string list \<times> string list \<Rightarrow> string set" where
  "add_walked folder_path folders triple =
     (case triple of (root_path, dirs, files) \<Rightarrow>
        (case relative_to root_path folder_path of
           None \<Rightarrow> folders
         | Some relative_root \<Rightarrow>
             (if path_str relative_root \<noteq> ''.''
              then (if \<not> has_notes files
                    then add_with_parents (path_str relative_root) folders
                    else folders)
              else folders)))"

definition add_empty_folders :: "fsnode \<Rightarrow> string set \<Rightarrow> path \<Rightarrow> string set" where
  "add_empty_folders fs folders folder_path =
     (if is_dir fs folder_path
      then foldl (add_walked folder_path) folders (os_walk fs folder_path)
      else folders)"

text \<open>The set \<open>folders\<close> of \<open>_get_folders\<close> before it is sorted, and the result.\<close>

definition folder_set :: "fsnode \<Rightarrow> path list \<Rightarrow> path list \<Rightarrow> string set" where
  "folder_set fs config notes =
     foldl (add_empty_folders fs)
       (foldl (\<lambda>folders note. add_note_folder note config folders) {} notes)
       config"

definition get_folders :: "fsnode \<Rightarrow> app \<Rightarrow> string list" where
  "get_folders fs a = sorted_list_of_set (folder_set fs (config_folders a) (all_notes a))"

text \<open>A set of folder paths that holds the parent folders of each of its members.\<close>

definition ancestor_closed :: "string set \<Rightarrow> bool" where
  "ancestor_closed F = (\<forall>f \<in> F. set (parent_folders f) \<subseteq> F)"

section \<open>The tree builder\<close>

text \<open>
  \<open>_get_notes_in_folder\<close>: a note belongs to the folder when its directory,
  relative to one of the configured folders, has the folder's path string.
\<close>

fun note_in_folder :: "path \<Rightarrow> path list \<Rightarrow> string \<Rightarrow> bool" where
  "note_in_folder note [] folder = False"
| "note_in_folder note (config_path # rest) folder =
     (case relative_to (path_parent note) config_path of
        None \<Rightarrow> note_in_folder note rest folder
      | Some note_relative_path \<Rightarrow>
          (if path_str note_relative_path = folder then True
           else note_in_folder note rest folder))"

definition get_notes_in_folder :: "app \<Rightarrow> string \<Rightarrow> path list" where
  "get_notes_in_folder a folder =
     filter (\<lambda>note. note_in_folder note (config_folders a) folder) (all_notes a)"

text \<open>
  One round of the loop of \<open>_build_tree_items\<close>: the rows that one folder adds to
  \<open>tree_items\<close>.
\<close>

definition should_show :: "app \<Rightarrow> string list \<Rightarrow> string \<Rightarrow> string \<Rightarrow> bool" where
  "should_show a folders query folder =
     (if query = []
      then \<not> list_ex (\<lambda>parent_folder. parent_folder \<in> set folders
                                      \<and> parent_folder \<notin> expanded_folders a)
                     (parent_folders folder)
      else True)"

definition folder_rows :: "app \<Rightarrow> string list \<Rightarrow> string \<Rightarrow> string \<Rightarrow> tree_item list" where
  "folder_rows a folders query folder =
     (if query \<noteq> [] \<and> \<not> str_contains (lower folder) query then []
      else if should_show a folders query folder
      then (let indent_level = count_char CHR ''/'' folder * 2
            in FolderItem folder indent_level #
               (if folder \<in> expanded_folders a \<or> query \<noteq> []
                then map (\<lambda>note. NoteItem note (indent_level + 2))
                       (filter (\<lambda>note. query = [] \<or> str_contains (lower (path_name note)) query)
                          (sort_key path_name (get_notes_in_folder a folder)))
                else []))
      else [])"

definition build_tree_items :: "app \<Rightarrow> string list \<Rightarrow> string \<Rightarrow> tree_item list" where
  "build_tree_items a folders query = concat (map (folder_rows a folders query) (sort folders))"

text \<open>
  Every note row stands in a block of note rows right after a folder row, two columns
  deeper than it, and every note of the block belongs to that folder.
\<close>

definition grouped :: "app \<Rightarrow> tree_item list \<Rightarrow> bool" where
  "grouped a rows =
     (\<forall>i n k. i < length rows \<and> rows ! i = NoteItem n k \<longrightarrow>
        (\<exists>j f. j < i \<and> rows ! j = FolderItem f (k - 2) \<and> 2 \<le> k
           \<and> (\<forall>m. j < m \<and> m \<le> i \<longrightarrow>
                 (\<exists>n'. rows ! m = NoteItem n' k \<and> n' \<in> set (get_notes_in_folder a f)))))"

section \<open>The application state\<close>

definition initialize_state :: "fsnode \<Rightarrow> app \<Rightarrow> app" where
  "initialize_state fs a =
     (let a1 = a\<lparr>filtered_notes := get_folders fs a\<rparr>
      in a1\<lparr>tree_items := build_tree_items a1 (filtered_notes a1) []\<rparr>)"

text \<open>\<open>NoteCLI()\<close> for a given configuration and list of notes found.\<close>

definition new_app :: "fsnode \<Rightarrow> path list \<Rightarrow> path list \<Rightarrow> app" where
  "new_app fs config notes =
     initialize_state fs
       \<lparr>config_folders = config, all_notes = notes, selected_index = 0, filtered_notes = [],
        note_to_open = None, expanded_folders = {}, tree_items = []\<rparr>"

text \<open>\<open>_update_filtered_notes\<close>: runs whenever the text of the search buffer changes.\<close>

definition update_filtered_notes :: "fsnode \<Rightarrow> app \<Rightarrow> string \<Rightarrow> app" where
  "update_filtered_notes fs a buff_text =
     (let query = lower buff_text;
          a1 = a\<lparr>filtered_notes := get_folders fs a\<rparr>;
          a2 = a1\<lparr>tree_items := build_tree_items a1 (filtered_notes a1) query\<rparr>
      in a2\<lparr>selected_index := 0\<rparr>)"

text \<open>
  \<open>tree_items[selected_index]\<close>: a negative index counts from the end, and an index
  out of range raises \<open>IndexError\<close>.
\<close>

datatype py_error = IndexError

definition item_at :: "tree_item list \<Rightarrow> int \<Rightarrow> py_error + tree_item" where
  "item_at items i =
     (if 0 \<le> i \<and> i < int (length items) then Inr (items ! nat i)
      else if - int (length items) \<le> i \<and> i < 0 then Inr (items ! nat (int (length items) + i))
      else Inl IndexError)"

text \<open>
  The key handlers of the right arrow, the left arrow and Enter.  Each rebuilds the
  rows with \<open>_build_tree_items(filtered_notes)\<close>, that is with the empty query.
\<close>

definition expand_folder :: "app \<Rightarrow> py_error + app" where
  "expand_folder a =
     (if tree_items a \<noteq> []
      then (case item_at (tree_items a) (selected_index a) of
              Inl e \<Rightarrow> Inl e
            | Inr (NoteItem note indent) \<Rightarrow> Inr a
            | Inr (FolderItem item indent) \<Rightarrow>
                (if item \<notin> expanded_folders a
                 then (let a1 = a\<lparr>expanded_folders := insert item (expanded_folders a)\<rparr>
                       in Inr (a1\<lparr>tree_items := build_tree_items a1 (filtered_notes a1) []\<rparr>))
                 else Inr a))
      else Inr a)"

definition collapse_folder :: "app \<Rightarrow> py_error + app" where
  "collapse_folder a =
     (if tree_items a \<noteq> []
      then (case item_at (tree_items a) (selected_index a) of
              Inl e \<Rightarrow> Inl e
            | Inr (NoteItem note indent) \<Rightarrow> Inr a
            | Inr (FolderItem item indent) \<Rightarrow>
                (if item \<in> expanded_folders a
                 then (let a1 = a\<lparr>expanded_folders := expanded_folders a - {item}\<rparr>
                       in Inr (a1\<lparr>tree_items := build_tree_items a1 (filtered_notes a1) []\<rparr>))
                 else Inr a))
      else Inr a)"

definition toggle_or_open :: "app \<Rightarrow> py_error + app" where
  "toggle_or_open a =
     (if tree_items a \<noteq> []
      then (case item_at (tree_items a) (selected_index a) of
              Inl e \<Rightarrow> Inl e
            | Inr (NoteItem note indent) \<Rightarrow> Inr (a\<lparr>note_to_open := Some note\<rparr>)
            | Inr (FolderItem item indent) \<Rightarrow>
                (let a1 = (if item \<in> expanded_folders a
                           then a\<lparr>expanded_folders := expanded_folders a - {item}\<rparr>
                           else a\<lparr>expanded_folders := insert item (expanded_folders a)\<rparr>)
                 in Inr (a1\<lparr>tree_items := build_tree_items a1 (filtered_notes a1) []\<rparr>)))
      else Inr a)"

section \<open>Example data\<close>

text \<open>
  A disk with one configured folder \<open>/r\<close> that holds the directory \<open>a\<close> with two
  empty subdirectories \<open>b\<close> and \<open>c\<close>, and no note.
\<close>

definition disk_abc :: fsnode where
  "disk_abc = Dir [] [Dir ''r'' [Dir ''a'' [Dir ''b'' [], Dir ''c'' []]]]"

definition app_abc :: app where
  "app_abc = new_app disk_abc [[''r'']] []"

text \<open>
  A disk with the directories \<open>a\<close>, \<open>a/b\<close>, \<open>a/c\<close>, \<open>az\<close> and \<open>az/d\<close> below the
  configured folder \<open>/r\<close>, and no note.
\<close>

definition disk_tree :: fsnode where
  "disk_tree =
     Dir [] [Dir ''r'' [Dir ''a'' [Dir ''b'' [], Dir ''c'' []], Dir ''az'' [Dir ''d'' []]]]"

definition app_tree :: app where
  "app_tree = new_app disk_tree [[''r'']] []"

text \<open>
  A session on that disk: Down, Right (which expands \<open>az\<close>), then the text \<open>a\<close>
  typed into the search bar, then Down three times.
\<close>

definition searching :: app where
  "searching =
     move_down (move_down (move_down
       (update_filtered_notes disk_tree (projr (expand_folder (move_down app_tree))) ''a'')))"

text \<open>
  A disk with the nested directories \<open>a\<close>, \<open>a/b\<close> and \<open>a/b/c\<close> below the configured
  folder \<open>/r\<close>, and the application on it with only \<open>a\<close> expanded.
\<close>

definition disk_nested :: fsnode where
  "disk_nested = Dir [] [Dir ''r'' [Dir ''a'' [Dir ''b'' [Dir ''c'' []]]]]"

definition app_nested :: app where
  "app_nested = (new_app disk_nested [[''r'']] [])\<lparr>expanded_folders := {''a''}\<rparr>"

text \<open>
  A disk with the note \<open>top.md\<close> directly in the configured folder \<open>/r\<close>, two notes
  in \<open>p/q\<close>, and the empty directory \<open>e\<close>; the notes are listed by file name, as
  \<open>find_notes\<close> returns them.
\<close>

definition disk_notes :: fsnode where
  "disk_notes =
     Dir [] [Dir ''r'' [File ''top.md'',
                        Dir ''p'' [Dir ''q'' [File ''x.md'', File ''b.txt'']],
                        Dir ''e'' []]]"

definition app_notes :: app where
  "app_notes =
     new_app disk_notes [[''r'']]
       [[''r'', ''p'', ''q'', ''b.txt''], [''r'', ''top.md''], [''r'', ''p'', ''q'', ''x.md'']]"

text \<open>
  Two configured folders of which the second lies inside the first, and one note
  directly in the second; the scan of each configured folder finds the note once.
\<close>

definition disk_overlap :: fsnode where
  "disk_overlap = Dir [] [Dir ''r'' [Dir ''p'' [Dir ''q'' [File ''x.md'']]]]"

definition app_overlap :: app where
  "app_overlap =
     new_app disk_overlap [[''r''], [''r'', ''p'', ''q'']]
       [[''r'', ''p'', ''q'', ''x.md''], [''r'', ''p'', ''q'', ''x.md'']]"

text \<open>The disk with notes, with the folders \<open>.\<close>, \<open>p\<close> and \<open>p/q\<close> expanded.\<close>

definition app_notes_open :: app where
  "app_notes_open = app_notes\<lparr>expanded_folders := {''.'', ''p'', ''p/q''}\<rparr>"

text \<open>The disk with notes after the note \<open>plan.md\<close> was created in \<open>e\<close>.\<close>

definition disk_plan :: fsnode where
  "disk_plan =
     Dir [] [Dir ''r'' [File ''top.md'',
                        Dir ''p'' [Dir ''q'' [File ''x.md'', File ''b.txt'']],
                        Dir ''e'' [File ''plan.md'']]]"

text \<open>A state with three rows.\<close>

definition three_rows :: app where
  "three_rows =
     \<lparr>config_folders = [[''r'']], all_notes = [], selected_index = 0,
      filtered_notes = [''a'', ''b'', ''c''], note_to_open = None, expanded_folders = {},
      tree_items = [FolderItem ''a'' 0, FolderItem ''b'' 0, FolderItem ''c'' 0]\<rparr>"

section \<open>Navigation\<close>

text \<open>
  C8.  \<open>move_down\<close> and \<open>move_up\<close> advance and retreat the selection index modulo the
  number of rows, and change nothing when there are no rows.  With three rows,
  \<open>move_down\<close> at index 2 gives 0 and \<open>move_up\<close> at index 0 gives 2.
\<close>

theorem move_wraparound:
  "(tree_items a \<noteq> [] \<longrightarrow>
      selected_index (move_down a) = (selected_index a + 1) mod int (length (tree_items a)) \<and>
      selected_index (move_up a) = (selected_index a - 1) mod int (length (tree_items a)) \<and>
      tree_items (move_down a) = tree_items a \<and> tree_items (move_up a) = tree_items a)
   \<and> (tree_items a = [] \<longrightarrow> move_down a = a \<and> move_up a = a)
   \<and> (length (tree_items a) = 3 \<and> selected_index a = 2 \<longrightarrow> selected_index (move_down a) = 0)
   \<and> (length (tree_items a) = 3 \<and> selected_index a = 0 \<longrightarrow> selected_index (move_up a) = 2)"
  by (auto simp: move_down_def move_up_def)

theorem move_wraparound_witness:
  "tree_items three_rows \<noteq> []
   \<and> selected_index (move_down (three_rows\<lparr>selected_index := 2\<rparr>)) = 0
   \<and> selected_index (move_up three_rows) = 2
   \<and> selected_index (move_down three_rows) = 1
   \<and> move_down (three_rows\<lparr>tree_items := []\<rparr>) = three_rows\<lparr>tree_items := []\<rparr>
   \<and> move_up (three_rows\<lparr>tree_items := []\<rparr>) = three_rows\<lparr>tree_items := []\<rparr>"
  using move_wraparound [of "three_rows\<lparr>selected_index := 2\<rparr>"]
        move_wraparound [of three_rows]
        move_wraparound [of "three_rows\<lparr>tree_items := []\<rparr>"]
  by (simp add: three_rows_def)

section \<open>The selection after a rebuild\<close>

text \<open>
  C1, as the code has it.  A change of the search text rebuilds the rows and sets the
  selection index to 0.  Expanding, collapsing and toggling a folder rebuild the rows
  and leave the selection index as it was.
\<close>

theorem selection_after_rebuild:
  "selected_index (update_filtered_notes fs a buff_text) = 0
   \<and> (expand_folder a = Inr a' \<longrightarrow> selected_index a' = selected_index a)
   \<and> (collapse_folder a = Inr a' \<longrightarrow> selected_index a' = selected_index a)
   \<and> (toggle_or_open a = Inr a' \<longrightarrow> selected_index a' = selected_index a)"
  by (auto simp: update_filtered_notes_def expand_folder_def collapse_folder_def
        toggle_or_open_def Let_def split: if_splits sum.splits tree_item.splits)

theorem selection_after_rebuild_witness:
  "selected_index (update_filtered_notes disk_tree (move_down app_tree) ''b'') = 0
   \<and> expand_folder (move_down app_tree) = Inr (projr (expand_folder (move_down app_tree)))
   \<and> selected_index (projr (expand_folder (move_down app_tree))) = 1"
proof -
  have "isl (expand_folder (move_down app_tree)) = False"
    by code_simp
  then have r: "expand_folder (move_down app_tree)
                  = Inr (projr (expand_folder (move_down app_tree)))"
    by (cases "expand_folder (move_down app_tree)") auto
  have i: "selected_index (move_down app_tree) = 1"
    by code_simp
  show ?thesis
    using selection_after_rebuild
            [of disk_tree "move_down app_tree" "''b''" "projr (expand_folder (move_down app_tree))"]
          r i
    by simp
qed

text \<open>
  C1 as stated fails for the Right key: with the second row selected, expanding the
  folder \<open>az\<close> adds the row of \<open>az/d\<close>, and the selection index is still 1.
\<close>

theorem expand_keeps_selection:
  "tree_items (move_down app_tree) = [FolderItem ''a'' 0, FolderItem ''az'' 0]
   \<and> selected_index (move_down app_tree) = 1
   \<and> map_sum id tree_items (expand_folder (move_down app_tree))
       = Inr [FolderItem ''a'' 0, FolderItem ''az'' 0, FolderItem ''az/d'' 2]
   \<and> map_sum id selected_index (expand_folder (move_down app_tree)) = Inr 1"
  by code_simp

text \<open>
  C2 at a session the code runs into.  After the text \<open>a\<close> is typed all five folders
  are listed; with the fourth row (\<open>az\<close>) selected, the Left key collapses it and
  rebuilds the rows with the empty query, which leaves two rows and the selection
  index 3.  The next Enter key reads \<open>tree_items[3]\<close> and raises \<open>IndexError\<close>.
\<close>

theorem collapse_leaves_index_out_of_range:
  "tree_items searching =
     [FolderItem ''a'' 0, FolderItem ''a/b'' 2, FolderItem ''a/c'' 2,
      FolderItem ''az'' 0, FolderItem ''az/d'' 2]
   \<and> selected_index searching = 3
   \<and> map_sum id tree_items (collapse_folder searching)
       = Inr [FolderItem ''a'' 0, FolderItem ''az'' 0]
   \<and> map_sum id selected_index (collapse_folder searching) = Inr 3
   \<and> map_sum id selected_index (toggle_or_open (projr (collapse_folder searching)))
       = Inl IndexError"
  by code_simp

section \<open>Which folders the tree shows\<close>

lemma folder_item_in_folder_rows:
  "FolderItem f i \<in> set (folder_rows a folders q g) \<longleftrightarrow>
     g = f \<and> i = count_char CHR ''/'' f * 2
     \<and> (q = [] \<or> str_contains (lower f) q) \<and> should_show a folders q f"
  by (auto simp: folder_rows_def Let_def)

lemma folder_item_in_build:
  "FolderItem f i \<in> set (build_tree_items a folders q) \<longleftrightarrow>
     f \<in> set folders \<and> i = count_char CHR ''/'' f * 2
     \<and> (q = [] \<or> str_contains (lower f) q) \<and> should_show a folders q f"
  by (auto simp: build_tree_items_def folder_item_in_folder_rows)

lemma get_folders_expanded:
  "get_folders fs (a\<lparr>expanded_folders := E\<rparr>) = get_folders fs a"
  by (simp add: get_folders_def)

text \<open>
  C4.  After a non-empty text is typed into the search bar, every folder of the folder
  set whose lower-cased path contains the lower-cased text has a folder row, whatever
  the set of expanded folders is.
\<close>

theorem query_bypasses_expansion:
  assumes "buff_text \<noteq> []"
    and "folder \<in> set (get_folders fs a)"
    and "str_contains (lower folder) (lower buff_text)"
  shows "FolderItem folder (count_char CHR ''/'' folder * 2)
           \<in> set (tree_items (update_filtered_notes fs (a\<lparr>expanded_folders := E\<rparr>) buff_text))"
  using assms
  by (simp add: update_filtered_notes_def Let_def folder_item_in_build should_show_def
        get_folders_expanded lower_def)

theorem query_bypasses_expansion_witness:
  "''AZ'' \<noteq> []
   \<and> ''az/d'' \<in> set (get_folders disk_tree app_tree)
   \<and> str_contains (lower ''az/d'') (lower ''AZ'')
   \<and> FolderItem ''az/d'' 2
        \<in> set (tree_items (update_filtered_notes disk_tree (app_tree\<lparr>expanded_folders := {}\<rparr>) ''AZ''))"
proof -
  have f: "''az/d'' \<in> set (get_folders disk_tree app_tree)" by code_simp
  have c: "str_contains (lower ''az/d'') (lower ''AZ'')" by code_simp
  have n: "count_char CHR ''/'' ''az/d'' * 2 = 2" by code_simp
  show ?thesis
    using query_bypasses_expansion [of "''AZ''" "''az/d''" disk_tree app_tree "{}"] f c n
    by simp
qed

section \<open>The folder set is closed under parent folders\<close>

lemma split_str_not_Nil: "split_str sep s \<noteq> []"
  by (induction s) (auto split: list.splits)

lemma split_str_parts_free: "p \<in> set (split_str sep s) \<Longrightarrow> sep \<notin> set p"
  by (induction s arbitrary: p) (auto split: list.splits if_splits)

lemma split_str_free: "sep \<notin> set p \<Longrightarrow> split_str sep p = [p]"
  by (induction p) auto

lemma split_str_append_sep:
  "sep \<notin> set p \<Longrightarrow> split_str sep (p @ sep # s) = p # split_str sep s"
  by (induction p) (auto simp: split_str_not_Nil split: list.splits)

lemma split_join:
  "ps \<noteq> [] \<Longrightarrow> \<forall>p \<in> set ps. sep \<notin> set p \<Longrightarrow> split_str sep (join_str sep ps) = ps"
  by (induction sep ps rule: join_str.induct) (auto simp: split_str_free split_str_append_sep)

lemma parent_folders_iff:
  "p \<in> set (parent_folders s) \<longleftrightarrow>
     (\<exists>i. 0 < i \<and> i < length (split_str CHR ''/'' s)
          \<and> p = join_str CHR ''/'' (take i (split_str CHR ''/'' s)))"
proof -
  have "p \<in> set (parent_folders s) \<longleftrightarrow>
          p \<in> (\<lambda>i. join_str CHR ''/'' (take i (split_str CHR ''/'' s)))
                ` {1..<length (split_str CHR ''/'' s)}"
    by (simp add: parent_folders_def Let_def)
  also have "\<dots> \<longleftrightarrow> (\<exists>i. 0 < i \<and> i < length (split_str CHR ''/'' s)
          \<and> p = join_str CHR ''/'' (take i (split_str CHR ''/'' s)))"
    unfolding image_iff by (metis atLeastLessThan_iff less_eq_Suc_le One_nat_def)
  finally show ?thesis .
qed

lemma parent_folders_trans:
  assumes "p \<in> set (parent_folders s)" and "q \<in> set (parent_folders p)"
  shows "q \<in> set (parent_folders s)"
proof -
  let ?parts = "split_str CHR ''/'' s"
  from assms(1) obtain i where i: "0 < i" "i < length ?parts"
    and p: "p = join_str CHR ''/'' (take i ?parts)"
    unfolding parent_folders_iff by blast
  have ne: "take i ?parts \<noteq> []" using i by auto
  have free: "\<forall>x \<in> set (take i ?parts). CHR ''/'' \<notin> set x"
    by (meson in_set_takeD split_str_parts_free)
  have sp: "split_str CHR ''/'' p = take i ?parts"
    unfolding p using ne free by (rule split_join)
  from assms(2) obtain j where j: "0 < j" "j < length (take i ?parts)"
    and q: "q = join_str CHR ''/'' (take j (take i ?parts))"
    unfolding parent_folders_iff sp by blast
  have ji: "j < i" using j i by simp
  then have "take j (take i ?parts) = take j ?parts" by (simp add: min_def)
  with q have q': "q = join_str CHR ''/'' (take j ?parts)" by simp
  have "j < length ?parts" using ji i by simp
  with j(1) q' show ?thesis
    unfolding parent_folders_iff by blast
qed

lemma add_with_parents_eq:
  "add_with_parents s F = insert s F \<union> set (parent_folders s)"
proof -
  have "foldl (\<lambda>acc x. insert x acc) A xs = A \<union> set xs" for A :: "string set" and xs
    by (induction xs arbitrary: A) auto
  then show ?thesis by (simp add: add_with_parents_def)
qed

lemma closed_add_with_parents:
  "ancestor_closed F \<Longrightarrow> ancestor_closed (add_with_parents s F)"
  unfolding ancestor_closed_def add_with_parents_eq
  using parent_folders_trans by blast

lemma closed_add_note_folder:
  "ancestor_closed F \<Longrightarrow> ancestor_closed (add_note_folder n config F)"
  by (induction n config F rule: add_note_folder.induct)
     (auto simp: closed_add_with_parents split: option.splits)

lemma closed_add_walked:
  "ancestor_closed F \<Longrightarrow> ancestor_closed (add_walked folder_path F t)"
  by (auto simp: add_walked_def closed_add_with_parents split: option.splits prod.splits)

lemma closed_foldl:
  assumes "\<And>F x. P F \<Longrightarrow> P (f F x)" and "P F"
  shows "P (foldl f F xs)"
  using assms(2) by (induction xs arbitrary: F) (auto intro: assms(1))

lemma closed_add_empty_folders:
  "ancestor_closed F \<Longrightarrow> ancestor_closed (add_empty_folders fs F folder_path)"
  unfolding add_empty_folders_def
  by (auto intro: closed_foldl [where P = ancestor_closed] closed_add_walked)

lemma closed_folder_set: "ancestor_closed (folder_set fs config notes)"
  unfolding folder_set_def
  by (intro closed_foldl [where P = ancestor_closed] closed_add_empty_folders
        closed_add_note_folder)
     (simp_all add: ancestor_closed_def)

lemma finite_add_with_parents: "finite F \<Longrightarrow> finite (add_with_parents s F)"
  by (simp add: add_with_parents_eq)

lemma finite_add_note_folder: "finite F \<Longrightarrow> finite (add_note_folder n config F)"
  by (induction n config F rule: add_note_folder.induct)
     (auto simp: finite_add_with_parents split: option.splits)

lemma finite_add_walked: "finite F \<Longrightarrow> finite (add_walked folder_path F t)"
  by (auto simp: add_walked_def finite_add_with_parents split: option.splits prod.splits)

lemma finite_add_empty_folders: "finite F \<Longrightarrow> finite (add_empty_folders fs F folder_path)"
  unfolding add_empty_folders_def
  by (auto intro: closed_foldl [where P = finite] finite_add_walked)

lemma finite_folder_set: "finite (folder_set fs config notes)"
  unfolding folder_set_def
  by (intro closed_foldl [where P = finite] finite_add_empty_folders finite_add_note_folder)
     simp_all

lemma set_get_folders: "set (get_folders fs a) = folder_set fs (config_folders a) (all_notes a)"
  by (simp add: get_folders_def finite_folder_set)

text \<open>
  C5.  The folder list of \<open>_get_folders\<close> holds, with each member, every proper prefix
  of it: the first \<open>i\<close> of its parts split at \<open>'/'\<close>, joined by \<open>'/'\<close>, for every \<open>i\<close>
  from 1 up to the number of parts less one.
\<close>

theorem folders_ancestor_closed:
  assumes "f \<in> set (get_folders fs a)"
    and "0 < i" and "i < length (split_str CHR ''/'' f)"
  shows "join_str CHR ''/'' (take i (split_str CHR ''/'' f)) \<in> set (get_folders fs a)"
proof -
  have "join_str CHR ''/'' (take i (split_str CHR ''/'' f)) \<in> set (parent_folders f)"
    unfolding parent_folders_iff using assms(2,3) by blast
  moreover have "ancestor_closed (set (get_folders fs a))"
    by (simp add: set_get_folders closed_folder_set)
  ultimately show ?thesis
    using assms(1) unfolding ancestor_closed_def by blast
qed

theorem folders_ancestor_closed_witness:
  "''p/q'' \<in> set (get_folders disk_notes app_notes)
   \<and> (0::nat) < 1 \<and> 1 < length (split_str CHR ''/'' ''p/q'')
   \<and> join_str CHR ''/'' (take 1 (split_str CHR ''/'' ''p/q'')) = ''p''
   \<and> ''p'' \<in> set (get_folders disk_notes app_notes)"
proof -
  have f: "''p/q'' \<in> set (get_folders disk_notes app_notes)" by code_simp
  have s: "split_str CHR ''/'' ''p/q'' = [''p'', ''q'']" by code_simp
  show ?thesis
    using folders_ancestor_closed [of "''p/q''" disk_notes app_notes 1] f s
    by simp
qed

section \<open>Folders shown without a query\<close>

lemma folder_row_without_query:
  "(\<exists>i. FolderItem folder i \<in> set (build_tree_items a folders [])) \<longleftrightarrow>
     folder \<in> set folders
     \<and> (\<forall>p \<in> set (parent_folders folder). p \<in> set folders \<longrightarrow> p \<in> expanded_folders a)"
  by (auto simp: folder_item_in_build should_show_def list_ex_iff)

text \<open>
  C3.  With the empty query, and for the folder list of \<open>_get_folders\<close> on any disk,
  configuration and list of notes, a folder has a row in the rows built exactly when it
  is in the folder list and every one of its parent folders is expanded.  Of \<open>a\<close>,
  \<open>a/b\<close> and \<open>a/b/c\<close> with only \<open>a\<close> expanded, the rows are those of \<open>a\<close> and \<open>a/b\<close>.
\<close>

theorem folder_visible_without_query:
  "(\<exists>i. FolderItem folder i \<in> set (build_tree_items a (get_folders fs b) [])) \<longleftrightarrow>
     folder \<in> set (get_folders fs b) \<and> set (parent_folders folder) \<subseteq> expanded_folders a"
proof -
  have "ancestor_closed (set (get_folders fs b))"
    by (simp add: set_get_folders closed_folder_set)
  then have "folder \<in> set (get_folders fs b) \<Longrightarrow>
               set (parent_folders folder) \<subseteq> set (get_folders fs b)"
    unfolding ancestor_closed_def by blast
  then show ?thesis
    unfolding folder_row_without_query by blast
qed

theorem folder_visible_without_query_witness:
  "get_folders disk_nested app_nested = [''a'', ''a/b'', ''a/b/c'']
   \<and> build_tree_items app_nested (get_folders disk_nested app_nested) []
        = [FolderItem ''a'' 0, FolderItem ''a/b'' 2]
   \<and> (\<exists>i. FolderItem ''a/b'' i
          \<in> set (build_tree_items app_nested (get_folders disk_nested app_nested) []))
   \<and> \<not> (\<exists>i. FolderItem ''a/b/c'' i
          \<in> set (build_tree_items app_nested (get_folders disk_nested app_nested) []))"
proof -
  have g: "get_folders disk_nested app_nested = [''a'', ''a/b'', ''a/b/c'']" by code_simp
  have b: "build_tree_items app_nested (get_folders disk_nested app_nested) []
             = [FolderItem ''a'' 0, FolderItem ''a/b'' 2]"
    by code_simp
  have e: "expanded_folders app_nested = {''a''}" by (simp add: app_nested_def)
  have p1: "parent_folders ''a/b'' = [''a'']" by code_simp
  have p2: "parent_folders ''a/b/c'' = [''a'', ''a/b'']" by code_simp
  have v1: "\<exists>i. FolderItem ''a/b'' i
          \<in> set (build_tree_items app_nested (get_folders disk_nested app_nested) [])"
    unfolding folder_visible_without_query [of "''a/b''" app_nested disk_nested app_nested]
    by (simp add: g e p1)
  have v2: "\<not> (\<exists>i. FolderItem ''a/b/c'' i
          \<in> set (build_tree_items app_nested (get_folders disk_nested app_nested) []))"
    unfolding folder_visible_without_query [of "''a/b/c''" app_nested disk_nested app_nested]
    by (simp add: g e p2)
  show ?thesis
    by (intro conjI g b v1 v2)
qed

section \<open>Notes directly in a configured folder\<close>


lemma startswith_refl: "startswith p p"
  by (induction p) auto

lemma relative_to_self: "relative_to p p = Some []"
  by (simp add: relative_to_def startswith_refl)

lemma relative_to_None: "\<not> startswith p c \<Longrightarrow> relative_to p c = None"
  by (simp add: relative_to_def)

lemma add_with_parents_mono: "F \<subseteq> add_with_parents s F"
  by (auto simp: add_with_parents_eq)

lemma add_note_folder_mono: "F \<subseteq> add_note_folder n config F"
  using add_with_parents_mono
  by (induction n config F rule: add_note_folder.induct) (auto split: option.splits)

lemma add_walked_mono: "F \<subseteq> add_walked folder_path F t"
  using add_with_parents_mono
  by (auto simp: add_walked_def split: option.splits prod.splits)

lemma foldl_mono:
  assumes "\<And>F x. F \<subseteq> f F x"
  shows "F \<subseteq> foldl f F xs"
proof (induction xs arbitrary: F)
  case Nil
  show ?case by simp
next
  case (Cons x xs)
  have "F \<subseteq> f F x" by (rule assms)
  also have "\<dots> \<subseteq> foldl f (f F x) xs" by (rule Cons.IH)
  finally show ?case by simp
qed

lemma add_empty_folders_mono: "F \<subseteq> add_empty_folders fs F folder_path"
  unfolding add_empty_folders_def
  using foldl_mono [of "add_walked folder_path", OF add_walked_mono] by auto

lemma dot_added_for_note:
  assumes "\<forall>c \<in> set pre. \<not> startswith (path_parent n) c"
  shows "''.'' \<in> add_note_folder n (pre @ path_parent n # post) F"
  using assms
proof (induction pre)
  case Nil
  show ?case
    by (simp add: relative_to_self path_bool_def path_str_def add_with_parents_eq)
next
  case (Cons c pre)
  then show ?case by (simp add: relative_to_None)
qed

lemma dot_added_for_notes:
  assumes "n \<in> set ns"
    and "\<forall>c \<in> set pre. \<not> startswith (path_parent n) c"
  shows "''.'' \<in> foldl (\<lambda>folders x. add_note_folder x (pre @ path_parent n # post) folders) F ns"
  using assms(1)
proof (induction ns arbitrary: F)
  case Nil
  then show ?case by simp
next
  case (Cons x xs)
  let ?step = "\<lambda>folders x. add_note_folder x (pre @ path_parent n # post) folders"
  show ?case
  proof (cases "x = n")
    case True
    have "''.'' \<in> ?step F n" using assms(2) by (rule dot_added_for_note)
    moreover have "?step F n \<subseteq> foldl ?step (?step F n) xs"
      by (rule foldl_mono) (rule add_note_folder_mono)
    ultimately show ?thesis using True by auto
  next
    case False
    with Cons.prems have "n \<in> set xs" by simp
    then show ?thesis using Cons.IH by simp
  qed
qed

text \<open>
  C9, as the code has it.  If the directory of some note is a configured folder, and no
  configured folder listed before it is that directory's ancestor, then the folder
  list holds the path \<open>"."\<close>.
\<close>

theorem root_level_note_gives_dot:
  assumes "n \<in> set (all_notes a)"
    and "config_folders a = pre @ path_parent n # post"
    and "\<forall>c \<in> set pre. \<not> startswith (path_parent n) c"
  shows "''.'' \<in> set (get_folders fs a)"
proof -
  let ?F = "foldl (\<lambda>folders x. add_note_folder x (config_folders a) folders) {} (all_notes a)"
  have "''.'' \<in> ?F"
    unfolding assms(2) using assms(1,3) by (rule dot_added_for_notes)
  moreover have "?F \<subseteq> foldl (add_empty_folders fs) ?F (config_folders a)"
    by (rule foldl_mono) (rule add_empty_folders_mono)
  ultimately show ?thesis
    by (auto simp: set_get_folders folder_set_def)
qed

theorem root_level_note_gives_dot_witness:
  "[''r'', ''top.md''] \<in> set (all_notes app_notes)
   \<and> config_folders app_notes = [] @ path_parent [''r'', ''top.md''] # []
   \<and> ''.'' \<in> set (get_folders disk_notes app_notes)
   \<and> get_folders disk_notes app_notes = [''.'', ''e'', ''p'', ''p/q'']"
proof -
  have n: "[''r'', ''top.md''] \<in> set (all_notes app_notes)" by code_simp
  have c: "config_folders app_notes = [] @ path_parent [''r'', ''top.md''] # []" by code_simp
  have g: "get_folders disk_notes app_notes = [''.'', ''e'', ''p'', ''p/q'']" by code_simp
  show ?thesis
    using root_level_note_gives_dot [of "[''r'', ''top.md'']" app_notes "[]" "[]" disk_notes] n c g
    by simp
qed

text \<open>
  C9 as stated fails when a configured folder lies inside an earlier one: the note's
  directory \<open>/r/p/q\<close> is configured, but relative to the first configured folder
  \<open>/r\<close> it is \<open>p/q\<close>, and the folder list has no \<open>"."\<close>.
\<close>

theorem nested_root_gives_no_dot:
  "[''r'', ''p'', ''q'', ''x.md''] \<in> set (all_notes app_overlap)
   \<and> path_parent [''r'', ''p'', ''q'', ''x.md''] \<in> set (config_folders app_overlap)
   \<and> get_folders disk_overlap app_overlap = [''p'', ''p/q'']
   \<and> ''.'' \<notin> set (get_folders disk_overlap app_overlap)"
  by code_simp

section \<open>Note rows and their folder row\<close>

lemma grouped_Nil: "grouped a []"
  by (simp add: grouped_def)

lemma grouped_block:
  assumes "set ns \<subseteq> set (get_notes_in_folder a f)"
  shows "grouped a (FolderItem f d # map (\<lambda>n. NoteItem n (d + 2)) ns)"
  unfolding grouped_def
proof (intro allI impI)
  fix i n k
  let ?rows = "FolderItem f d # map (\<lambda>n. NoteItem n (d + 2)) ns"
  assume h: "i < length ?rows \<and> ?rows ! i = NoteItem n k"
  then have i0: "0 < i" by (cases i) auto
  from h i0 have k: "k = d + 2" by (cases i) auto
  have "\<forall>m. 0 < m \<and> m \<le> i \<longrightarrow>
          (\<exists>n'. ?rows ! m = NoteItem n' k \<and> n' \<in> set (get_notes_in_folder a f))"
  proof (intro allI impI)
    fix m assume m: "0 < m \<and> m \<le> i"
    then obtain m' where m': "m = Suc m'" by (cases m) auto
    with m h have "m' < length ns" by auto
    then show "\<exists>n'. ?rows ! m = NoteItem n' k \<and> n' \<in> set (get_notes_in_folder a f)"
      using assms m' k by (auto simp: subset_iff)
  qed
  with i0 k show "\<exists>j f'. j < i \<and> ?rows ! j = FolderItem f' (k - 2) \<and> 2 \<le> k
           \<and> (\<forall>m. j < m \<and> m \<le> i \<longrightarrow>
                 (\<exists>n'. ?rows ! m = NoteItem n' k \<and> n' \<in> set (get_notes_in_folder a f')))"
    by (intro exI[of _ 0] exI[of _ f]) simp
qed

lemma grouped_append:
  assumes "grouped a xs" and "grouped a ys"
  shows "grouped a (xs @ ys)"
  unfolding grouped_def
proof (intro allI impI)
  fix i n k
  assume h: "i < length (xs @ ys) \<and> (xs @ ys) ! i = NoteItem n k"
  show "\<exists>j f. j < i \<and> (xs @ ys) ! j = FolderItem f (k - 2) \<and> 2 \<le> k
           \<and> (\<forall>m. j < m \<and> m \<le> i \<longrightarrow>
                 (\<exists>n'. (xs @ ys) ! m = NoteItem n' k \<and> n' \<in> set (get_notes_in_folder a f)))"
  proof (cases "i < length xs")
    case True
    with h have "xs ! i = NoteItem n k" by (simp add: nth_append)
    with True assms(1) obtain j f where j: "j < i" "xs ! j = FolderItem f (k - 2)" "2 \<le> k"
      and b: "\<forall>m. j < m \<and> m \<le> i \<longrightarrow>
                 (\<exists>n'. xs ! m = NoteItem n' k \<and> n' \<in> set (get_notes_in_folder a f))"
      unfolding grouped_def by blast
    have "\<forall>m. j < m \<and> m \<le> i \<longrightarrow>
            (\<exists>n'. (xs @ ys) ! m = NoteItem n' k \<and> n' \<in> set (get_notes_in_folder a f))"
      using b True by (simp add: nth_append)
    moreover have "(xs @ ys) ! j = FolderItem f (k - 2)"
      using j True by (simp add: nth_append)
    ultimately show ?thesis using j by blast
  next
    case False
    let ?i = "i - length xs"
    from False h have "?i < length ys" "ys ! ?i = NoteItem n k" by (auto simp: nth_append)
    with assms(2) obtain j f where j: "j < ?i" "ys ! j = FolderItem f (k - 2)" "2 \<le> k"
      and b: "\<forall>m. j < m \<and> m \<le> ?i \<longrightarrow>
                 (\<exists>n'. ys ! m = NoteItem n' k \<and> n' \<in> set (get_notes_in_folder a f))"
      unfolding grouped_def by blast
    let ?j = "j + length xs"
    have "?j < i" using j False by simp
    moreover have "(xs @ ys) ! ?j = FolderItem f (k - 2)"
      using j by (simp add: nth_append)
    moreover have "\<forall>m. ?j < m \<and> m \<le> i \<longrightarrow>
            (\<exists>n'. (xs @ ys) ! m = NoteItem n' k \<and> n' \<in> set (get_notes_in_folder a f))"
    proof (intro allI impI)
      fix m assume m: "?j < m \<and> m \<le> i"
      then have "j < m - length xs \<and> m - length xs \<le> ?i" by auto
      with b have "\<exists>n'. ys ! (m - length xs) = NoteItem n' k
                     \<and> n' \<in> set (get_notes_in_folder a f)" by blast
      moreover have "(xs @ ys) ! m = ys ! (m - length xs)"
        using m by (simp add: nth_append)
      ultimately show "\<exists>n'. (xs @ ys) ! m = NoteItem n' k
                     \<and> n' \<in> set (get_notes_in_folder a f)" by simp
    qed
    ultimately show ?thesis using j(3) by blast
  qed
qed

lemma grouped_folder_rows: "grouped a (folder_rows a folders q f)"
proof -
  let ?d = "count_char CHR ''/'' f * 2"
  have b1: "grouped a (FolderItem f ?d # map (\<lambda>n. NoteItem n (?d + 2))
              (filter P (sort_key path_name (get_notes_in_folder a f))))" for P
    by (rule grouped_block) auto
  have b2: "grouped a (FolderItem f ?d # map (\<lambda>n. NoteItem n (?d + 2))
              (sort_key path_name (get_notes_in_folder a f)))"
    by (rule grouped_block) auto
  have b0: "grouped a [FolderItem f ?d]"
    using grouped_block [of "[]" a f ?d] by simp
  show ?thesis
    unfolding folder_rows_def Let_def
    by (simp add: grouped_Nil b0 b1 b2 del: add_2_eq_Suc add_2_eq_Suc')
qed

lemma grouped_concat:
  "(\<And>x. x \<in> set xss \<Longrightarrow> grouped a x) \<Longrightarrow> grouped a (concat xss)"
  by (induction xss) (auto simp: grouped_Nil intro: grouped_append)

lemma grouped_build: "grouped a (build_tree_items a folders q)"
  unfolding build_tree_items_def
  by (rule grouped_concat) (auto simp: grouped_folder_rows)

text \<open>
  C10.  In the rows that \<open>_build_tree_items\<close> returns, every note row has a folder row
  before it such that all rows after that folder row up to the note row are note rows
  of notes of that folder, indented two columns deeper than the folder row.  So note
  rows come in one block directly after the row of their folder, and none appears
  without it.
\<close>

theorem note_rows_follow_their_folder:
  assumes "i < length (build_tree_items a folders q)"
    and "build_tree_items a folders q ! i = NoteItem n k"
  shows "\<exists>j f. j < i \<and> build_tree_items a folders q ! j = FolderItem f (k - 2) \<and> 2 \<le> k
           \<and> f \<in> set folders
           \<and> (\<forall>m. j < m \<and> m \<le> i \<longrightarrow>
                 (\<exists>n'. build_tree_items a folders q ! m = NoteItem n' k
                       \<and> n' \<in> set (get_notes_in_folder a f)))"
proof -
  let ?rows = "build_tree_items a folders q"
  from grouped_build [of a folders q] assms
  obtain j f where j: "j < i" "?rows ! j = FolderItem f (k - 2)" "2 \<le> k"
    and b: "\<forall>m. j < m \<and> m \<le> i \<longrightarrow>
              (\<exists>n'. ?rows ! m = NoteItem n' k \<and> n' \<in> set (get_notes_in_folder a f))"
    unfolding grouped_def by blast
  from j(1) assms(1) have "j < length ?rows" by simp
  then have "?rows ! j \<in> set ?rows" by (rule nth_mem)
  with j(2) have "f \<in> set folders" by (simp add: folder_item_in_build)
  with j b show ?thesis by blast
qed

theorem note_rows_follow_their_folder_witness:
  "build_tree_items app_notes_open (filtered_notes app_notes_open) []
     = [FolderItem ''.'' 0, NoteItem [''r'', ''top.md''] 2, FolderItem ''e'' 0,
        FolderItem ''p'' 0, FolderItem ''p/q'' 2,
        NoteItem [''r'', ''p'', ''q'', ''b.txt''] 4, NoteItem [''r'', ''p'', ''q'', ''x.md''] 4]
   \<and> (\<exists>j f. j < 6
         \<and> build_tree_items app_notes_open (filtered_notes app_notes_open) [] ! j
             = FolderItem f 2
         \<and> f \<in> set (filtered_notes app_notes_open)
         \<and> [''r'', ''p'', ''q'', ''x.md''] \<in> set (get_notes_in_folder app_notes_open f))"
proof -
  let ?rows = "build_tree_items app_notes_open (filtered_notes app_notes_open) []"
  have r: "?rows
     = [FolderItem ''.'' 0, NoteItem [''r'', ''top.md''] 2, FolderItem ''e'' 0,
        FolderItem ''p'' 0, FolderItem ''p/q'' 2,
        NoteItem [''r'', ''p'', ''q'', ''b.txt''] 4, NoteItem [''r'', ''p'', ''q'', ''x.md''] 4]"
    by code_simp
  have l: "6 < length ?rows" by (simp add: r)
  have x: "?rows ! 6 = NoteItem [''r'', ''p'', ''q'', ''x.md''] 4" by (simp add: r)
  from note_rows_follow_their_folder [OF l x]
  obtain j f where "j < 6" "?rows ! j = FolderItem f (4 - 2)"
      "f \<in> set (filtered_notes app_notes_open)"
      "\<forall>m. j < m \<and> m \<le> 6 \<longrightarrow>
         (\<exists>n'. ?rows ! m = NoteItem n' 4 \<and> n' \<in> set (get_notes_in_folder app_notes_open f))"
    by blast
  then have "j < 6 \<and> ?rows ! j = FolderItem f 2
         \<and> f \<in> set (filtered_notes app_notes_open)
         \<and> [''r'', ''p'', ''q'', ''x.md''] \<in> set (get_notes_in_folder app_notes_open f)"
    using x by auto
  then show ?thesis using r by blast
qed

section \<open>Deleting a note\<close>

text \<open>
  C6, as the code has it.  When the typed confirmation, stripped of the white space
  around it, is not \<open>DELETE\<close>, \<open>delete_file\<close> returns false and leaves the disk as
  it was.
\<close>

theorem delete_needs_confirmation:
  assumes "strip typed \<noteq> ''DELETE''"
  shows "delete_file fs folders note_path typed = (False, fs)"
  using assms by (simp add: delete_file_def Let_def)

theorem delete_needs_confirmation_witness:
  "strip ''delete'' \<noteq> ''DELETE''
   \<and> delete_file disk_notes [[''r'']] [''r'', ''top.md''] ''delete'' = (False, disk_notes)
   \<and> is_file disk_notes [''r'', ''top.md'']"
proof -
  have s: "strip ''delete'' \<noteq> ''DELETE''" by code_simp
  have f: "is_file disk_notes [''r'', ''top.md'']" by code_simp
  show ?thesis
    using delete_needs_confirmation [OF s, of disk_notes "[[''r'']]" "[''r'', ''top.md'']"] s f
    by simp
qed

text \<open>
  C6 as stated fails for a confirmation with white space around the phrase: it is not
  the phrase itself, and the file is deleted.
\<close>

theorem padded_confirmation_deletes:
  "'' DELETE '' \<noteq> ''DELETE''
   \<and> is_file disk_notes [''r'', ''top.md'']
   \<and> fst (delete_file disk_notes [[''r'']] [''r'', ''top.md''] '' DELETE '') = True
   \<and> is_file (snd (delete_file disk_notes [[''r'']] [''r'', ''top.md''] '' DELETE ''))
        [''r'', ''top.md''] = False"
  by code_simp

text \<open>The next-line character and the no-break space are stripped like the space.\<close>

lemma strip_removes_all_spaces:
  "strip ([CHR 0xA0, CHR 0x09] @ ''DELETE'' @ [CHR 0x85, CHR 0x1F]) = ''DELETE''"
  by code_simp

section \<open>Creating a note\<close>


lemma startswith_single: "startswith s [c] \<Longrightarrow> c \<in> set s"
  by (cases s) auto

lemma str_contains_single: "c \<in> set s \<Longrightarrow> str_contains s [c]"
  by (induction s) auto

lemma validate_filename_no_slash:
  "validate_filename filename \<Longrightarrow> CHR ''/'' \<notin> set filename"
  using str_contains_single [of "CHR ''/''" filename]
  by (auto simp: validate_filename_def split: if_splits)

lemma endswith_length: "endswith s e \<Longrightarrow> length e \<le> length s"
proof -
  have "startswith xs ys \<Longrightarrow> length ys \<le> length xs" for xs ys :: "'a list"
    by (induction xs ys rule: startswith.induct) auto
  from this [of "rev s" "rev e"] show "endswith s e \<Longrightarrow> length e \<le> length s"
    by (simp add: endswith_def)
qed

lemma path_join_name:
  assumes "CHR ''/'' \<notin> set name" and "name \<noteq> []" and "name \<noteq> ''.''"
  shows "path_join base name = base @ [name]"
proof -
  have "\<not> startswith name ''/''"
    using assms(1) startswith_single [of name "CHR ''/''"] by auto
  then show ?thesis
    using assms by (simp add: path_join_def split_str_free)
qed

lemma note_filename_facts:
  assumes "CHR ''/'' \<notin> set filename" and "filename \<noteq> []"
  shows "CHR ''/'' \<notin> set (note_filename filename)"
    and "note_filename filename \<noteq> []"
    and "note_filename filename \<noteq> ''.''"
    and "note_filename filename \<noteq> ''..''"
proof -
  show "CHR ''/'' \<notin> set (note_filename filename)"
    using assms by (simp add: note_filename_def)
  show "note_filename filename \<noteq> []"
    using assms by (simp add: note_filename_def)
  have l: "3 \<le> length (note_filename filename)"
    using endswith_length [of filename "''.txt''"] endswith_length [of filename "''.md''"]
    by (auto simp: note_filename_def)
  show "note_filename filename \<noteq> ''.''" using l by auto
  show "note_filename filename \<noteq> ''..''" using l by auto
qed

lemma create_new_note_success:
  assumes "create_new_note fs folders folder_path typed = (Inr p, fs')"
  shows "\<exists>absolute_folder_path.
           is_dir fs absolute_folder_path
           \<and> validate_filename (strip typed) \<and> strip typed \<noteq> []
           \<and> p = absolute_folder_path @ [note_filename (strip typed)]
           \<and> \<not> path_exists fs p
           \<and> os_touch fs p = Some fs'"
proof -
  from assms obtain d where d: "find_folder fs folders folder_path None = Inr (Some d)"
    by (auto simp: create_new_note_def split: sum.splits option.splits)
  from assms d have dir: "is_dir fs d" and ne: "strip typed \<noteq> []"
    and v: "validate_filename (strip typed)"
    by (auto simp: create_new_note_def Let_def split: if_splits option.splits)
  have nf: "(if list_ex (endswith (strip typed)) NOTE_EXTENSIONS
             then strip typed else strip typed @ ''.md'') = note_filename (strip typed)"
    by (simp add: NOTE_EXTENSIONS_def note_filename_def)
  have pj: "path_join d (note_filename (strip typed)) = d @ [note_filename (strip typed)]"
    using note_filename_facts [OF validate_filename_no_slash [OF v] ne]
    by (intro path_join_name)
  from assms d dir ne v have "p = path_join d (note_filename (strip typed))"
    and "\<not> path_exists fs p" and "os_touch fs p = Some fs'"
    by (auto simp: create_new_note_def Let_def nf split: if_splits option.splits)
  with dir v ne pj show ?thesis by auto
qed


lemma touch_Cons:
  "r \<noteq> [] \<Longrightarrow> touch (Dir d es) (c # r) =
     (case find_entry c es of
        None \<Rightarrow> None
      | Some e \<Rightarrow> (case touch e r of
                    None \<Rightarrow> None
                  | Some e' \<Rightarrow> Some (Dir d (replace_entry c e' es))))"
  by (cases r) auto

lemma touch_node_name: "touch n p = Some n' \<Longrightarrow> node_name n' = node_name n"
proof (cases n)
  case (File f)
  then show "touch n p = Some n' \<Longrightarrow> node_name n' = node_name n"
    by (cases p) auto
next
  case (Dir d es)
  show "touch n p = Some n' \<Longrightarrow> node_name n' = node_name n"
  proof (cases p)
    case Nil
    then show "touch n p = Some n' \<Longrightarrow> node_name n' = node_name n" by simp
  next
    case (Cons c r)
    show "touch n p = Some n' \<Longrightarrow> node_name n' = node_name n"
    proof (cases r)
      case Nil
      assume "touch n p = Some n'"
      with Dir Cons Nil show "node_name n' = node_name n"
        by (cases "find_entry c es") auto
    next
      case (Cons c' cs)
      assume "touch n p = Some n'"
      with Dir \<open>p = c # r\<close> Cons show "node_name n' = node_name n"
        by (cases "find_entry c es"; cases "touch (the (find_entry c es)) (c' # cs)") auto
    qed
  qed
qed

lemma find_entry_name: "find_entry c es = Some e \<Longrightarrow> node_name e = c"
  by (induction es) (auto split: if_splits)

lemma find_entry_replace_same:
  "find_entry c es = Some e \<Longrightarrow> node_name e' = c \<Longrightarrow> find_entry c (replace_entry c e' es) = Some e'"
  by (induction es) (auto split: if_splits)

lemma find_entry_replace_other:
  "y \<noteq> c \<Longrightarrow> node_name e' = c \<Longrightarrow> find_entry y (replace_entry c e' es) = find_entry y es"
  by (induction es) auto

lemma find_entry_append_new:
  "find_entry c es = None \<Longrightarrow> find_entry y (es @ [File c]) = (if y = c then Some (File c) else find_entry y es)"
  by (induction es) (auto split: if_splits)

lemma find_entry_append_old:
  "find_entry y es = Some e \<Longrightarrow> find_entry y (es @ es') = Some e"
  by (induction es) (auto split: if_splits)

text \<open>What was a directory stays one, and what existed still exists.\<close>

lemma touch_keeps_dirs:
  "touch n p = Some n' \<Longrightarrow> is_dir_at n ys \<Longrightarrow> is_dir_at n' ys"
proof (induction n p arbitrary: n' ys rule: touch.induct)
  case (1 n)
  then show ?case by simp
next
  case (2 f c cs)
  then show ?case by simp
next
  case (3 d es c)
  show ?case
  proof (cases ys)
    case Nil
    with 3 show ?thesis by (auto simp: is_dir_at_def split: option.splits)
  next
    case (Cons y ys')
    show ?thesis
    proof (cases "find_entry c es")
      case None
      with 3 have n': "n' = Dir d (es @ [File c])" by simp
      from 3(2) Cons obtain e where e: "find_entry y es = Some e"
        by (auto simp: is_dir_at_def split: option.splits)
      with 3(2) Cons n' show ?thesis
        by (simp add: is_dir_at_def find_entry_append_old)
    next
      case (Some e)
      with 3 show ?thesis by simp
    qed
  qed
next
  case (4 d es c c' cs)
  from 4(2) obtain e e' where e: "find_entry c es = Some e"
    and t: "touch e (c' # cs) = Some e'" and n': "n' = Dir d (replace_entry c e' es)"
    by (auto split: option.splits)
  have nn: "node_name e' = c"
    using touch_node_name [OF t] find_entry_name [OF e] by simp
  show ?case
  proof (cases ys)
    case Nil
    with n' show ?thesis by (simp add: is_dir_at_def)
  next
    case (Cons y ys')
    show ?thesis
    proof (cases "y = c")
      case True
      from 4(3) Cons True e have "is_dir_at e ys'" by (simp add: is_dir_at_def)
      then have "is_dir_at e' ys'" using "4.IH" [OF e t] by simp
      with Cons True n' e nn show ?thesis
        by (simp add: is_dir_at_def find_entry_replace_same)
    next
      case False
      with 4(3) Cons n' nn show ?thesis
        by (simp add: is_dir_at_def find_entry_replace_other)
    qed
  qed
qed

lemma touch_makes_file:
  "touch n (q @ [c]) = Some n' \<Longrightarrow> is_dir_at n q \<Longrightarrow> lookup n (q @ [c]) = None
     \<Longrightarrow> lookup n' (q @ [c]) = Some (File c)"
proof (induction q arbitrary: n n')
  case Nil
  then obtain d es where n: "n = Dir d es"
    by (cases n) (auto simp: is_dir_at_def)
  with Nil have "find_entry c es = None" by (auto split: option.splits)
  with Nil n show ?case by (auto simp: find_entry_append_new)
next
  case (Cons x q)
  then obtain d es where n: "n = Dir d es"
    by (cases n) (auto simp: is_dir_at_def)
  from Cons.prems(2) n obtain e where e: "find_entry x es = Some e" and de: "is_dir_at e q"
    by (auto simp: is_dir_at_def split: option.splits)
  from Cons.prems(1) n e obtain e' where t: "touch e (q @ [c]) = Some e'"
    and n': "n' = Dir d (replace_entry x e' es)"
    by (auto simp: touch_Cons split: option.splits)
  from Cons.prems(3) n e have "lookup e (q @ [c]) = None" by simp
  from Cons.IH [OF t de this] have "lookup e' (q @ [c]) = Some (File c)" .
  moreover have "node_name e' = x"
    using touch_node_name [OF t] find_entry_name [OF e] by simp
  ultimately show ?case using n' e by (simp add: find_entry_replace_same)
qed

lemma is_dir_at_exists: "is_dir_at fs p \<Longrightarrow> lookup fs p \<noteq> None"
  by (auto simp: is_dir_at_def split: option.splits)

lemma os_follow_snoc:
  "c \<noteq> ''..'' \<Longrightarrow> os_follow fs cur (xs @ [c]) =
     (case os_follow fs cur xs of
        None \<Rightarrow> None
      | Some q \<Rightarrow> (if is_dir_at fs q \<and> lookup fs (q @ [c]) \<noteq> None then Some (q @ [c]) else None))"
  by (induction xs arbitrary: cur) (auto simp: is_dir_at_exists)

lemma created_file_is_file:
  assumes "is_dir fs d" and "c \<noteq> ''..''"
    and "\<not> path_exists fs (d @ [c])" and "os_touch fs (d @ [c]) = Some fs'"
  shows "is_file fs' (d @ [c])"
proof -
  from assms(1) obtain q where q: "os_follow fs [] d = Some q" and dq: "is_dir_at fs q"
    by (auto simp: is_dir_def split: option.splits)
  from assms(3) q dq have none: "lookup fs (q @ [c]) = None"
    by (cases "lookup fs (q @ [c])") (auto simp: path_exists_def os_follow_snoc [OF assms(2)])
  from assms(4) q have t: "touch fs (q @ [c]) = Some fs'"
    by (simp add: os_touch_def)
  have made: "lookup fs' (q @ [c]) = Some (File c)"
    using t dq none by (rule touch_makes_file)
  have keep: "is_dir_at fs' ys" if "is_dir_at fs ys" for ys
    using t that by (rule touch_keeps_dirs)
  have follow: "os_follow fs cur xs = Some r \<Longrightarrow> is_dir_at fs r \<Longrightarrow> os_follow fs' cur xs = Some r"
    for cur xs r
  proof (induction xs arbitrary: cur)
    case Nil
    then show ?case
      using is_dir_at_exists [OF keep [of r]] by (auto split: if_splits)
  next
    case (Cons x xs)
    then show ?case using keep by (auto split: if_splits)
  qed
  have "os_follow fs' [] d = Some q" using q dq by (rule follow)
  with made keep [OF dq] have "os_follow fs' [] (d @ [c]) = Some (q @ [c])"
    by (simp add: os_follow_snoc [OF assms(2)])
  with made show ?thesis by (simp add: is_file_def)
qed

text \<open>
  What \<open>create_new_note\<close> does when it creates a note: the file is named as typed
  (without the white space around it) if that name ends with \<open>.txt\<close> or \<open>.md\<close> as
  written, and with \<open>.md\<close> appended otherwise; the file did not exist before, lies in
  an existing directory, and exists afterwards.  Typing \<open>plan\<close> creates \<open>plan.md\<close>,
  typing \<open>plan.txt\<close> creates \<open>plan.txt\<close>.
\<close>

lemma created_note_name:
  assumes "create_new_note fs folders folder_path typed = (Inr p, fs')"
  shows "path_name p =
           (if endswith (strip typed) ''.txt'' \<or> endswith (strip typed) ''.md''
            then strip typed else strip typed @ ''.md'')
         \<and> is_dir fs (path_parent p) \<and> \<not> path_exists fs p \<and> is_file fs' p"
proof -
  from create_new_note_success [OF assms] obtain d where d: "is_dir fs d"
    and v: "validate_filename (strip typed)" and ne: "strip typed \<noteq> []"
    and p: "p = d @ [note_filename (strip typed)]"
    and nx: "\<not> path_exists fs p" and t: "os_touch fs p = Some fs'"
    by blast
  have "note_filename (strip typed) \<noteq> ''..''"
    using note_filename_facts(4) [OF validate_filename_no_slash [OF v] ne] .
  then have "is_file fs' p"
    using d nx t unfolding p by (intro created_file_is_file)
  with d nx p show ?thesis
    by (simp add: path_name_def path_parent_def note_filename_def)
qed

lemma created_note_name_examples:
  "create_new_note disk_notes [[''r'']] ''e'' ''plan''
     = (Inr [''r'', ''e'', ''plan.md''], disk_plan)
   \<and> path_name [''r'', ''e'', ''plan.md''] = ''plan.md''
   \<and> is_file disk_plan [''r'', ''e'', ''plan.md'']
   \<and> fst (create_new_note disk_notes [[''r'']] ''e'' ''plan.txt'')
       = Inr [''r'', ''e'', ''plan.txt'']"
proof -
  have c: "create_new_note disk_notes [[''r'']] ''e'' ''plan''
             = (Inr [''r'', ''e'', ''plan.md''], disk_plan)"
    by code_simp
  have n: "path_name [''r'', ''e'', ''plan.md''] = ''plan.md''"
    by (simp add: path_name_def)
  have t: "fst (create_new_note disk_notes [[''r'']] ''e'' ''plan.txt'')
             = Inr [''r'', ''e'', ''plan.txt'']"
    by code_simp
  have f: "is_file disk_plan [''r'', ''e'', ''plan.md'']"
    using created_note_name [OF c] by blast
  show ?thesis
    by (intro conjI c n f t)
qed

text \<open>
  C7 at a file name where the code departs from it.  The name \<open>plan.TXT\<close> carries a
  recognized note extension: the scan for notes compares the lower-cased suffix with
  \<open>NOTE_EXTENSIONS\<close>, and a directory holding this file counts as holding a note.
  \<open>create_new_note\<close> compares the name as written and creates \<open>plan.TXT.md\<close>.
\<close>

theorem uppercase_extension_gets_md:
  "lower (suffix_of ''plan.TXT'') \<in> set NOTE_EXTENSIONS
   \<and> has_notes [''plan.TXT'']
   \<and> fst (create_new_note disk_notes [[''r'']] ''e'' ''plan.TXT'')
       = Inr [''r'', ''e'', ''plan.TXT.md'']"
  by code_simp

end
